theory Spec2Isabelle
  imports Main "HOL-Library.Word" "HOL-Library.AList"
begin

section \<open>The DBF attribute table reader\<close>

text \<open>
  The function \<open>read_dbf\<close> occurs twice in the repository, in
  \<^verbatim>\<open>scripts/create_simplified_ta_geojson.py\<close> and in
  \<^verbatim>\<open>scripts/generate_complete_ta_data.py\<close>. It opens a file in binary mode, reads a
  32-byte header, a table of 32-byte field descriptors and a block of fixed-width records,
  and returns a list of dictionaries from field names to values.

  The embedding follows the Python text line by line. The content of the file is a list of
  bytes, the file object is that list and a read position, every exception the code can
  raise is a value of \<open>error\<close>, and every loop is a recursive function.
\<close>

subsection \<open>Python values\<close>

type_synonym byte = "8 word"

text \<open>A Python \<open>str\<close> is a sequence of Unicode code points, the integers that \<open>ord\<close>
  returns.\<close>

type_synonym ustr = "int list"

text \<open>
  The values the reader stores in a record: a \<open>str\<close>, an \<open>int\<close> or a \<open>float\<close>.
  Floating point arithmetic is not modelled: the type of floats is a parameter, and so is
  the built-in \<open>float\<close> that parses a byte string.
\<close>

datatype 'f pyval = VStr ustr | VInt int | VFloat 'f

text \<open>The exceptions that the statements of \<open>read_dbf\<close> can raise.\<close>

datatype error = StructError | IndexError | UnicodeDecodeError

type_synonym field = "ustr \<times> ustr \<times> nat"

text \<open>
  A dictionary is the list of its items in insertion order, as Python keeps it: an assignment
  to a key that is present replaces the value in place, an assignment to a new key adds an
  item at the end (\<open>AList.update\<close>); \<open>map_of\<close> looks a key up.
\<close>

type_synonym 'f record_data = "(ustr \<times> 'f pyval) list"

subsection \<open>Built-in operations on bytes and strings\<close>

text \<open>The slice \<open>xs[i:j]\<close> for \<open>0 \<le> i \<le> j\<close>: it is cut short at the end of \<open>xs\<close>.\<close>

definition py_slice :: "'a list \<Rightarrow> nat \<Rightarrow> nat \<Rightarrow> 'a list" where
  "py_slice xs i j = take (j - i) (drop i xs)"

text \<open>\<open>strip\<close> removes the characters of a class from both ends.\<close>

definition strip_with :: "('a \<Rightarrow> bool) \<Rightarrow> 'a list \<Rightarrow> 'a list" where
  "strip_with P xs = rev (dropWhile P (rev (dropWhile P xs)))"

text \<open>\<open>bytes.strip()\<close> removes ASCII whitespace: space, tab, line feed, carriage return,
  vertical tab and form feed.\<close>

definition is_space_byte :: "byte \<Rightarrow> bool" where
  "is_space_byte b = (b = 0x20 \<or> b = 0x09 \<or> b = 0x0A \<or> b = 0x0D \<or> b = 0x0B \<or> b = 0x0C)"

definition bytes_strip :: "byte list \<Rightarrow> byte list" where
  "bytes_strip = strip_with is_space_byte"

text \<open>\<open>field_data[:11].strip(b'\x00')\<close> removes NUL bytes from both ends.\<close>

definition strip_nul :: "byte list \<Rightarrow> byte list" where
  "strip_nul = strip_with (\<lambda>b. b = 0x00)"

text \<open>\<open>str.strip()\<close> removes the code points for which \<open>str.isspace\<close> holds.\<close>

definition is_space_cp :: "int \<Rightarrow> bool" where
  "is_space_cp c =
     ((0x09 \<le> c \<and> c \<le> 0x0D) \<or> (0x1C \<le> c \<and> c \<le> 0x20) \<or> c = 0x85 \<or> c = 0xA0 \<or>
      c = 0x1680 \<or> (0x2000 \<le> c \<and> c \<le> 0x200A) \<or> c = 0x2028 \<or> c = 0x2029 \<or>
      c = 0x202F \<or> c = 0x205F \<or> c = 0x3000)"

definition str_strip :: "ustr \<Rightarrow> ustr" where
  "str_strip = strip_with is_space_cp"

text \<open>\<open>chr(b)\<close> for a byte: the string of the one code point \<open>b\<close>.\<close>

definition chr_py :: "byte \<Rightarrow> ustr" where
  "chr_py b = [uint b]"

subsection \<open>UTF-8\<close>

definition is_cont :: "byte \<Rightarrow> bool" where
  "is_cont b = (0x80 \<le> b \<and> b \<le> 0xBF)"

definition cont_bits :: "byte \<Rightarrow> int" where
  "cont_bits b = uint b - 0x80"

text \<open>
  One well-formed UTF-8 sequence at the head of a byte string: its code point and the number
  of bytes it takes. Overlong forms, surrogates and code points above U+10FFFF are not
  well-formed: the second byte of a sequence is a continuation byte, in a smaller range after
  the lead bytes \<open>E0\<close>, \<open>ED\<close>, \<open>F0\<close> and \<open>F4\<close>.
\<close>

definition second_ok :: "byte \<Rightarrow> byte \<Rightarrow> bool" where
  "second_ok b0 b1 =
     ((if b0 = 0xE0 then 0xA0 else if b0 = 0xF0 then 0x90 else 0x80) \<le> b1 \<and>
      b1 \<le> (if b0 = 0xED then 0x9F else if b0 = 0xF4 then 0x8F else 0xBF))"

fun utf8_head :: "byte list \<Rightarrow> (int \<times> nat) option" where
  "utf8_head [] = None"
| "utf8_head (b0 # bs) =
     (if b0 < 0x80 then Some (uint b0, 1)
      else if 0xC2 \<le> b0 \<and> b0 \<le> 0xDF then
        (case bs of
           b1 # _ \<Rightarrow>
             if is_cont b1 then Some ((uint b0 - 0xC0) * 64 + cont_bits b1, 2) else None
         | _ \<Rightarrow> None)
      else if 0xE0 \<le> b0 \<and> b0 \<le> 0xEF then
        (case bs of
           b1 # b2 # _ \<Rightarrow>
             if second_ok b0 b1 \<and> is_cont b2
             then Some ((uint b0 - 0xE0) * 4096 + cont_bits b1 * 64 + cont_bits b2, 3)
             else None
         | _ \<Rightarrow> None)
      else if 0xF0 \<le> b0 \<and> b0 \<le> 0xF4 then
        (case bs of
           b1 # b2 # b3 # _ \<Rightarrow>
             if second_ok b0 b1 \<and> is_cont b2 \<and> is_cont b3
             then Some ((uint b0 - 0xF0) * 262144 + cont_bits b1 * 4096 +
                        cont_bits b2 * 64 + cont_bits b3, 4)
             else None
         | _ \<Rightarrow> None)
      else None)"

text \<open>\<open>b.decode('utf-8')\<close>: the code points, or \<open>None\<close> where Python raises
  \<open>UnicodeDecodeError\<close>.\<close>

function decode_strict :: "byte list \<Rightarrow> ustr option" where
  "decode_strict [] = Some []"
| "decode_strict (b # bs) =
     (case utf8_head (b # bs) of
        None \<Rightarrow> None
      | Some (c, k) \<Rightarrow> map_option ((#) c) (decode_strict (drop k (b # bs))))"
  by pat_completeness auto
termination
proof -
  have consumes: "0 < k" if "utf8_head bs = Some (c, k)" for bs c k
    using that by (cases bs) (auto split: if_splits list.splits)
  show ?thesis
    by (relation "measure length") (auto simp del: utf8_head.simps dest!: consumes)
qed

text \<open>
  \<open>b.decode('utf-8', errors='ignore')\<close>: bytes that do not start a well-formed sequence
  are dropped. Python drops the longest prefix of a sequence that is well-formed so far in
  one step; the bytes after its first are continuation bytes, which start no sequence, so
  dropping one byte at a time gives the same string.
\<close>

function decode_ignore :: "byte list \<Rightarrow> ustr" where
  "decode_ignore [] = []"
| "decode_ignore (b # bs) =
     (case utf8_head (b # bs) of
        None \<Rightarrow> decode_ignore bs
      | Some (c, k) \<Rightarrow> c # decode_ignore (drop k (b # bs)))"
  by pat_completeness auto
termination
proof -
  have consumes: "0 < k" if "utf8_head bs = Some (c, k)" for bs c k
    using that by (cases bs) (auto split: if_splits list.splits)
  show ?thesis
    by (relation "measure length") (auto simp del: utf8_head.simps dest!: consumes)
qed

subsection \<open>The built-in \<open>int\<close> on a byte string\<close>

text \<open>
  \<open>int(b)\<close> in base 10 accepts ASCII whitespace at both ends, one optional sign, and
  decimal digits with single underscores between digits. Everything else raises
  \<open>ValueError\<close>, here \<open>None\<close>. (The limit of 4300 digits cannot be reached: a field
  has at most 255 bytes.)
\<close>

definition is_digit :: "byte \<Rightarrow> bool" where
  "is_digit b = (0x30 \<le> b \<and> b \<le> 0x39)"

definition digit_val :: "byte \<Rightarrow> int" where
  "digit_val b = uint b - 0x30"

text \<open>The digits after a first digit, with the value so far.\<close>

fun more_digits :: "byte list \<Rightarrow> int \<Rightarrow> int option" where
  "more_digits [] acc = Some acc"
| "more_digits (c # cs) acc =
     (if is_digit c then more_digits cs (10 * acc + digit_val c)
      else if c = 0x5F then
        (case cs of
           [] \<Rightarrow> None
         | d # ds \<Rightarrow> if is_digit d then more_digits ds (10 * acc + digit_val d) else None)
      else None)"

definition int_of_digits :: "byte list \<Rightarrow> int option" where
  "int_of_digits s =
     (case s of
        [] \<Rightarrow> None
      | c # cs \<Rightarrow> if is_digit c then more_digits cs (digit_val c) else None)"

definition int_of_bytes :: "byte list \<Rightarrow> int option" where
  "int_of_bytes b =
     (case bytes_strip b of
        [] \<Rightarrow> None
      | c # cs \<Rightarrow>
          if c = 0x2B then int_of_digits cs
          else if c = 0x2D then map_option uminus (int_of_digits cs)
          else int_of_digits (c # cs))"

subsection \<open>The file object\<close>

text \<open>
  A file opened with \<open>'rb'\<close> is its content and a position. \<open>f.read(n)\<close> returns the
  bytes from the position on, at most \<open>n\<close> and fewer at the end of the file (none at or
  beyond it), and advances the position by what it returned. \<open>f.seek(p)\<close> sets the position,
  also beyond the end; \<open>f.tell()\<close> returns it.
\<close>

definition f_read :: "byte list \<Rightarrow> nat \<Rightarrow> nat \<Rightarrow> byte list" where
  "f_read content pos n = take n (drop pos content)"

definition f_tell_after :: "byte list \<Rightarrow> nat \<Rightarrow> nat \<Rightarrow> nat" where
  "f_tell_after content pos n = pos + length (f_read content pos n)"

subsection \<open>The header\<close>

text \<open>\<open>struct.unpack('<I', b)\<close> and \<open>struct.unpack('<H', b)\<close>: \<open>b\<close> must have exactly
  4 and 2 bytes; the value is little-endian and unsigned.\<close>

fun le_nat :: "byte list \<Rightarrow> nat" where
  "le_nat [] = 0"
| "le_nat (b # bs) = unat b + 256 * le_nat bs"

definition unpack_le :: "nat \<Rightarrow> byte list \<Rightarrow> error + nat" where
  "unpack_le n b = (if length b = n then Inr (le_nat b) else Inl StructError)"

text \<open>The first statements of \<open>read_dbf\<close>: \<open>num_records\<close>, \<open>header_len\<close> and
  \<open>record_len\<close>.\<close>

definition read_header :: "byte list \<Rightarrow> error + (nat \<times> nat \<times> nat)" where
  "read_header content =
     (let header = f_read content 0 32 in
      case unpack_le 4 (py_slice header 4 8) of
        Inl e \<Rightarrow> Inl e
      | Inr num_records \<Rightarrow>
          (case unpack_le 2 (py_slice header 8 10) of
             Inl e \<Rightarrow> Inl e
           | Inr header_len \<Rightarrow>
               (case unpack_le 2 (py_slice header 10 12) of
                  Inl e \<Rightarrow> Inl e
                | Inr record_len \<Rightarrow> Inr (num_records, header_len, record_len))))"

subsection \<open>The field descriptors\<close>

text \<open>
  The body of the \<open>while\<close> loop after the test for the end marker: the name is decoded
  first, then bytes 11 and 16 are read, and each of the three can raise.
\<close>

definition parse_descriptor :: "byte list \<Rightarrow> error + field" where
  "parse_descriptor field_data =
     (case decode_strict (strip_nul (py_slice field_data 0 11)) of
        None \<Rightarrow> Inl UnicodeDecodeError
      | Some name \<Rightarrow>
          if length field_data \<le> 11 then Inl IndexError
          else if length field_data \<le> 16 then Inl IndexError
          else Inr (name, chr_py (field_data ! 11), unat (field_data ! 16)))"

text \<open>
  The loop \<open>while f.tell() < header_len - 1\<close>, from the position \<open>pos\<close>. The comparison
  is on Python integers: \<open>header_len - 1\<close> is \<open>-1\<close> for a header length of 0.
\<close>

function read_fields :: "byte list \<Rightarrow> nat \<Rightarrow> nat \<Rightarrow> error + field list" where
  "read_fields content header_len pos =
     (if int pos < int header_len - 1 then
        (if f_read content pos 32 = [] then Inl IndexError
         else if hd (f_read content pos 32) = 0x0D then Inr []
         else
           (case parse_descriptor (f_read content pos 32) of
              Inl e \<Rightarrow> Inl e
            | Inr fld \<Rightarrow>
                (case read_fields content header_len (f_tell_after content pos 32) of
                   Inl e \<Rightarrow> Inl e
                 | Inr fields \<Rightarrow> Inr (fld # fields))))
      else Inr [])"
  by pat_completeness auto
termination
proof (relation "measure (\<lambda>(content, header_len, pos). header_len - pos)", goal_cases)
  case 1
  show ?case by simp
next
  case (2 content header_len pos fld)
  define n where "n = length (f_read content pos 32)"
  from 2(2) have "0 < n" by (simp add: n_def)
  moreover from 2(1) have "pos < header_len" by linarith
  ultimately have "header_len - (pos + n) < header_len - pos" by linarith
  then show ?case by (simp add: f_tell_after_def n_def)
qed

declare read_fields.simps [simp del]

subsection \<open>The records\<close>

text \<open>
  The body of the loop over the fields: \<open>value\<close> is the stripped slice of the record; a
  field of type \<open>'C'\<close> stores a string, a field of type \<open>'N'\<close> a number, or \<open>0\<close> when
  \<open>float\<close> or \<open>int\<close> raises (the bare \<open>except\<close> catches it); a field of any other type
  stores nothing.
\<close>

definition store_field ::
  "(byte list \<Rightarrow> 'f option) \<Rightarrow> ustr \<Rightarrow> ustr \<Rightarrow> byte list \<Rightarrow> 'f record_data \<Rightarrow> 'f record_data"
where
  "store_field py_float name field_type val record_data =
     (if field_type = [0x43] then
        AList.update name (VStr (str_strip (decode_ignore val))) record_data
      else if field_type = [0x4E] then
        (case (if 0x2E \<in> set val then map_option VFloat (py_float val)
               else map_option VInt (int_of_bytes val)) of
           Some v \<Rightarrow> AList.update name v record_data
         | None \<Rightarrow> AList.update name (VInt 0) record_data)
      else record_data)"

text \<open>The loop \<open>for name, field_type, field_len in fields\<close>, from the offset
  \<open>offset\<close> and the dictionary \<open>record_data\<close>.\<close>

fun decode_fields ::
  "(byte list \<Rightarrow> 'f option) \<Rightarrow> field list \<Rightarrow> byte list \<Rightarrow> nat \<Rightarrow> 'f record_data \<Rightarrow>
   'f record_data"
where
  "decode_fields py_float [] record offset record_data = record_data"
| "decode_fields py_float ((name, field_type, field_len) # fields) record offset record_data =
     decode_fields py_float fields record (offset + field_len)
       (store_field py_float name field_type
          (bytes_strip (py_slice record offset (offset + field_len))) record_data)"

definition decode_record ::
  "(byte list \<Rightarrow> 'f option) \<Rightarrow> field list \<Rightarrow> byte list \<Rightarrow> 'f record_data" where
  "decode_record py_float fields record = decode_fields py_float fields record 1 []"

text \<open>
  The loop \<open>for i in range(num_records)\<close>, from the position \<open>pos\<close> with \<open>n\<close> records
  to go. \<open>record[0]\<close> raises \<open>IndexError\<close> on an empty read; a record that starts with
  \<open>0x2A\<close> is skipped.
\<close>

fun read_records ::
  "(byte list \<Rightarrow> 'f option) \<Rightarrow> field list \<Rightarrow> byte list \<Rightarrow> nat \<Rightarrow> nat \<Rightarrow> nat \<Rightarrow>
   error + 'f record_data list"
where
  "read_records py_float fields content record_len pos 0 = Inr []"
| "read_records py_float fields content record_len pos (Suc n) =
     (case f_read content pos record_len of
        [] \<Rightarrow> Inl IndexError
      | flag # rest \<Rightarrow>
          if flag = 0x2A then
            read_records py_float fields content record_len
              (f_tell_after content pos record_len) n
          else
            (case read_records py_float fields content record_len
                    (f_tell_after content pos record_len) n of
               Inl e \<Rightarrow> Inl e
             | Inr records \<Rightarrow> Inr (decode_record py_float fields (flag # rest) # records)))"

subsection \<open>The reader\<close>

text \<open>\<open>read_dbf\<close> of \<^verbatim>\<open>create_simplified_ta_geojson.py\<close>, on the content of the file it
  opens: header, \<open>f.seek(32)\<close>, field descriptors, \<open>f.seek(header_len)\<close>, records.\<close>

definition read_dbf ::
  "(byte list \<Rightarrow> 'f option) \<Rightarrow> byte list \<Rightarrow> error + 'f record_data list" where
  "read_dbf py_float content =
     (case read_header content of
        Inl e \<Rightarrow> Inl e
      | Inr (num_records, header_len, record_len) \<Rightarrow>
          (case read_fields content header_len 32 of
             Inl e \<Rightarrow> Inl e
           | Inr fields \<Rightarrow> read_records py_float fields content record_len header_len num_records))"

subsection \<open>The second copy of the reader\<close>

text \<open>
  \<open>read_dbf\<close> of \<^verbatim>\<open>generate_complete_ta_data.py\<close>, translated from its own text. It
  calls the same built-in operations of Python; its statements are those below.
\<close>

definition gen_read_header :: "byte list \<Rightarrow> error + (nat \<times> nat \<times> nat)" where
  "gen_read_header content =
     (let header = f_read content 0 32 in
      case unpack_le 4 (py_slice header 4 8) of
        Inl e \<Rightarrow> Inl e
      | Inr num_records \<Rightarrow>
          (case unpack_le 2 (py_slice header 8 10) of
             Inl e \<Rightarrow> Inl e
           | Inr header_len \<Rightarrow>
               (case unpack_le 2 (py_slice header 10 12) of
                  Inl e \<Rightarrow> Inl e
                | Inr record_len \<Rightarrow> Inr (num_records, header_len, record_len))))"

definition gen_parse_descriptor :: "byte list \<Rightarrow> error + field" where
  "gen_parse_descriptor field_data =
     (case decode_strict (strip_nul (py_slice field_data 0 11)) of
        None \<Rightarrow> Inl UnicodeDecodeError
      | Some name \<Rightarrow>
          if length field_data \<le> 11 then Inl IndexError
          else if length field_data \<le> 16 then Inl IndexError
          else Inr (name, chr_py (field_data ! 11), unat (field_data ! 16)))"

function gen_read_fields :: "byte list \<Rightarrow> nat \<Rightarrow> nat \<Rightarrow> error + field list" where
  "gen_read_fields content header_len pos =
     (if int pos < int header_len - 1 then
        (if f_read content pos 32 = [] then Inl IndexError
         else if hd (f_read content pos 32) = 0x0D then Inr []
         else
           (case gen_parse_descriptor (f_read content pos 32) of
              Inl e \<Rightarrow> Inl e
            | Inr fld \<Rightarrow>
                (case gen_read_fields content header_len (f_tell_after content pos 32) of
                   Inl e \<Rightarrow> Inl e
                 | Inr fields \<Rightarrow> Inr (fld # fields))))
      else Inr [])"
  by pat_completeness auto
termination
proof (relation "measure (\<lambda>(content, header_len, pos). header_len - pos)", goal_cases)
  case 1
  show ?case by simp
next
  case (2 content header_len pos fld)
  define n where "n = length (f_read content pos 32)"
  from 2(2) have "0 < n" by (simp add: n_def)
  moreover from 2(1) have "pos < header_len" by linarith
  ultimately have "header_len - (pos + n) < header_len - pos" by linarith
  then show ?case by (simp add: f_tell_after_def n_def)
qed

declare gen_read_fields.simps [simp del]

definition gen_store_field ::
  "(byte list \<Rightarrow> 'f option) \<Rightarrow> ustr \<Rightarrow> ustr \<Rightarrow> byte list \<Rightarrow> 'f record_data \<Rightarrow> 'f record_data"
where
  "gen_store_field py_float name field_type val record_data =
     (if field_type = [0x43] then
        AList.update name (VStr (str_strip (decode_ignore val))) record_data
      else if field_type = [0x4E] then
        (case (if 0x2E \<in> set val then map_option VFloat (py_float val)
               else map_option VInt (int_of_bytes val)) of
           Some v \<Rightarrow> AList.update name v record_data
         | None \<Rightarrow> AList.update name (VInt 0) record_data)
      else record_data)"

fun gen_decode_fields ::
  "(byte list \<Rightarrow> 'f option) \<Rightarrow> field list \<Rightarrow> byte list \<Rightarrow> nat \<Rightarrow> 'f record_data \<Rightarrow>
   'f record_data"
where
  "gen_decode_fields py_float [] record offset record_data = record_data"
| "gen_decode_fields py_float ((name, field_type, field_len) # fields) record offset
     record_data =
     gen_decode_fields py_float fields record (offset + field_len)
       (gen_store_field py_float name field_type
          (bytes_strip (py_slice record offset (offset + field_len))) record_data)"

fun gen_read_records ::
  "(byte list \<Rightarrow> 'f option) \<Rightarrow> field list \<Rightarrow> byte list \<Rightarrow> nat \<Rightarrow> nat \<Rightarrow> nat \<Rightarrow>
   error + 'f record_data list"
where
  "gen_read_records py_float fields content record_len pos 0 = Inr []"
| "gen_read_records py_float fields content record_len pos (Suc n) =
     (case f_read content pos record_len of
        [] \<Rightarrow> Inl IndexError
      | flag # rest \<Rightarrow>
          if flag = 0x2A then
            gen_read_records py_float fields content record_len
              (f_tell_after content pos record_len) n
          else
            (case gen_read_records py_float fields content record_len
                    (f_tell_after content pos record_len) n of
               Inl e \<Rightarrow> Inl e
             | Inr records \<Rightarrow>
                 Inr (gen_decode_fields py_float fields (flag # rest) 1 [] # records)))"

definition gen_read_dbf ::
  "(byte list \<Rightarrow> 'f option) \<Rightarrow> byte list \<Rightarrow> error + 'f record_data list" where
  "gen_read_dbf py_float content =
     (case gen_read_header content of
        Inl e \<Rightarrow> Inl e
      | Inr (num_records, header_len, record_len) \<Rightarrow>
          (case gen_read_fields content header_len 32 of
             Inl e \<Rightarrow> Inl e
           | Inr fields \<Rightarrow>
               gen_read_records py_float fields content record_len header_len num_records))"

subsection \<open>Hand-built tables\<close>

text \<open>
  Byte buffers for the examples: ASCII text, little-endian numbers, a field descriptor, and
  a table of a header, descriptors, the terminator \<open>0x0D\<close> and a record block.
\<close>

definition ascii :: "string \<Rightarrow> byte list" where
  "ascii s = map (\<lambda>c. of_nat (of_char c)) s"

definition text_of :: "string \<Rightarrow> ustr" where
  "text_of s = map of_char s"

fun le_bytes :: "nat \<Rightarrow> nat \<Rightarrow> byte list" where
  "le_bytes 0 v = []"
| "le_bytes (Suc k) v = of_nat (v mod 256) # le_bytes k (v div 256)"

definition descriptor :: "string \<Rightarrow> char \<Rightarrow> nat \<Rightarrow> byte list" where
  "descriptor name ty len =
     ascii name @ replicate (11 - length name) 0 @ ascii [ty] @ replicate 4 0 @
     [of_nat len] @ replicate 15 0"

definition dbf_header :: "nat \<Rightarrow> nat \<Rightarrow> nat \<Rightarrow> byte list" where
  "dbf_header num_records header_len record_len =
     [0x03, 0x7D, 0x01, 0x01] @ le_bytes 4 num_records @ le_bytes 2 header_len @
     le_bytes 2 record_len @ replicate 20 0"

definition dbf_table :: "(string \<times> char \<times> nat) list \<Rightarrow> byte list list \<Rightarrow> byte list" where
  "dbf_table fds recs =
     dbf_header (length recs) (33 + 32 * length fds) (1 + sum_list (map (\<lambda>(n, t, l). l) fds)) @
     concat (map (\<lambda>(n, t, l). descriptor n t l) fds) @ [0x0D] @ concat recs"

text \<open>
  An instance of the parameter \<open>py_float\<close> for the examples: plain decimal literals (a sign,
  digits and one point), which \<open>float\<close> accepts, kept as the digits read as an integer and
  the number of digits after the point.
\<close>

definition dec_float :: "byte list \<Rightarrow> (int \<times> nat) option" where
  "dec_float b =
     (let s = bytes_strip b;
          neg = (s \<noteq> [] \<and> hd s = 0x2D);
          t = (if s \<noteq> [] \<and> (hd s = 0x2D \<or> hd s = 0x2B) then tl s else s);
          ip = takeWhile is_digit t;
          r = dropWhile is_digit t
      in if r = [] then None
         else if hd r = 0x2E \<and> list_all is_digit (tl r) \<and> 0 < length (ip @ tl r)
         then Some ((if neg then -1 else 1) *
                    foldl (\<lambda>a d. 10 * a + digit_val d) 0 (ip @ tl r), length (tl r))
         else None)"

subsection \<open>What a table declares\<close>

text \<open>The three numbers of the header, as \<open>read_header\<close> reads them.\<close>

definition num_records :: "byte list \<Rightarrow> nat" where
  "num_records content = le_nat (py_slice (f_read content 0 32) 4 8)"

definition header_len :: "byte list \<Rightarrow> nat" where
  "header_len content = le_nat (py_slice (f_read content 0 32) 8 10)"

definition record_len :: "byte list \<Rightarrow> nat" where
  "record_len content = le_nat (py_slice (f_read content 0 32) 10 12)"

text \<open>The records of the record block in file order: record \<open>i\<close> is the \<open>record_len\<close>
  bytes at \<open>header_len + i * record_len\<close>.\<close>

definition disk_records :: "byte list \<Rightarrow> byte list list" where
  "disk_records content =
     map (\<lambda>i. f_read content (header_len content + i * record_len content) (record_len content))
       [0..<num_records content]"

definition deleted :: "byte list \<Rightarrow> bool" where
  "deleted record = (record \<noteq> [] \<and> hd record = 0x2A)"

definition live :: "byte list \<Rightarrow> bool" where
  "live record = (record \<noteq> [] \<and> hd record \<noteq> 0x2A)"

text \<open>
  A well-formed table: the header length is that of a 32-byte file header, a number of
  32-byte descriptors and the terminator byte; no descriptor starts with the terminator
  \<open>0x0D\<close> and every field name is UTF-8; a record has at least its deletion flag; and the
  file holds all the records that the header declares. (That the field lengths add up to the
  record length, and that the terminator is in its place, is not asked for: the reader does
  not look at either.)
\<close>

definition num_fields :: "byte list \<Rightarrow> nat" where
  "num_fields content = (header_len content - 33) div 32"

definition descriptor_at :: "byte list \<Rightarrow> nat \<Rightarrow> byte list" where
  "descriptor_at content i = f_read content (32 + 32 * i) 32"

definition good_descriptor :: "byte list \<Rightarrow> bool" where
  "good_descriptor d =
     (case d of
        [] \<Rightarrow> False
      | b # _ \<Rightarrow>
          (if b = 0x0D then False
           else case decode_strict (strip_nul (py_slice d 0 11)) of
                  None \<Rightarrow> False
                | Some _ \<Rightarrow> True))"

definition well_formed :: "byte list \<Rightarrow> bool" where
  "well_formed content =
     (header_len content = 33 + 32 * num_fields content \<and>
      list_all (\<lambda>i. good_descriptor (descriptor_at content i)) [0..<num_fields content] \<and>
      0 < record_len content \<and>
      header_len content + num_records content * record_len content \<le> length content)"

text \<open>The fields that the descriptors of a table declare.\<close>

definition table_fields :: "byte list \<Rightarrow> field list" where
  "table_fields content =
     (case read_fields content (header_len content) 32 of Inl e \<Rightarrow> [] | Inr fields \<Rightarrow> fields)"

text \<open>The offset in a record at which the reader decodes field \<open>i\<close>: 1 for the deletion
  flag and the declared lengths of the fields before it.\<close>

definition lens :: "field list \<Rightarrow> nat list" where
  "lens fields = map (\<lambda>(name, field_type, field_len). field_len) fields"

definition field_start :: "field list \<Rightarrow> nat \<Rightarrow> nat" where
  "field_start fields i = 1 + sum_list (lens (take i fields))"

definition field_bytes :: "field list \<Rightarrow> byte list \<Rightarrow> nat \<Rightarrow> byte list" where
  "field_bytes fields record i =
     (case fields ! i of
        (name, field_type, field_len) \<Rightarrow>
          py_slice record (field_start fields i) (field_start fields i + field_len))"

subsection \<open>Example tables\<close>

text \<open>A table of places with a name and a date, in three records of which the second is
  marked deleted.\<close>

definition places :: "byte list" where
  "places =
     dbf_table [(''NAME'', CHR ''C'', 6), (''DATE'', CHR ''D'', 8)]
       [ascii ''   AB  20240101'', ascii ''*ZZZZZZZZZZZZZZ'', ascii '' CD    20250101'']"

definition places_records :: "(int \<times> nat) record_data list" where
  "places_records =
     [[(text_of ''NAME'', VStr (text_of ''AB''))], [(text_of ''NAME'', VStr (text_of ''CD''))]]"

text \<open>The table of the end-to-end scenario: one field \<open>NAME\<close> of type Character and
  length 10, a live record and a record marked deleted.\<close>

definition scenario :: "byte list" where
  "scenario =
     dbf_table [(''NAME'', CHR ''C'', 10)] [ascii '' ABCDEFGHIJ'', ascii ''*ZZZZZZZZZZ'']"

text \<open>A table of three numeric fields. In the first record the last field is not a number;
  in the second the middle one is not.\<close>

definition census :: "byte list" where
  "census =
     dbf_table [(''POP'', CHR ''N'', 5), (''AREA'', CHR ''N'', 5), (''X'', CHR ''N'', 3)]
       [ascii ''    42 1.50 1a'', ascii ''  -7_01.2.3+05'']"

definition census_records :: "(int \<times> nat) record_data list" where
  "census_records =
     [[(text_of ''POP'', VInt 42), (text_of ''AREA'', VFloat (150, 2)), (text_of ''X'', VInt 0)],
      [(text_of ''POP'', VInt (- 70)), (text_of ''AREA'', VInt 0), (text_of ''X'', VInt 5)]]"

text \<open>A table that declares two records of 7 bytes and holds the first and three bytes of
  the second; and the same table without any byte of the second record.\<close>

definition cut_short :: "byte list" where
  "cut_short =
     dbf_header 2 65 7 @ descriptor ''NAME'' CHR ''C'' 6 @ [0x0D] @ ascii '' AB    '' @
     ascii '' CD''"

definition cut_off :: "byte list" where
  "cut_off =
     dbf_header 2 65 7 @ descriptor ''NAME'' CHR ''C'' 6 @ [0x0D] @ ascii '' AB    ''"

text \<open>Twelve zero bytes: a header that declares no record, and nothing else.\<close>

definition zeros :: "byte list" where
  "zeros = replicate 12 0"

section \<open>Properties\<close>

subsection \<open>Reading a well-formed table\<close>

lemma read_header_ok:
  "12 \<le> length content \<Longrightarrow>
   read_header content = Inr (num_records content, header_len content, record_len content)"
  by (simp add: read_header_def unpack_le_def py_slice_def f_read_def num_records_def
      header_len_def record_len_def Let_def)

lemma read_header_short:
  "length content < 12 \<Longrightarrow> read_header content = Inl StructError"
  by (auto simp add: read_header_def unpack_le_def py_slice_def f_read_def Let_def
      split: sum.splits)

lemma f_read_full:
  "pos + n \<le> length content \<Longrightarrow> length (f_read content pos n) = n"
  by (simp add: f_read_def)

lemma live_Cons: "live (flag # rest) = (flag \<noteq> 0x2A)"
  by (simp add: live_def)

lemma read_records_present:
  assumes "0 < rl"
  shows "pos + n * rl \<le> length content \<Longrightarrow>
    read_records pf fields content rl pos n =
      Inr (map (decode_record pf fields)
            (filter live (map (\<lambda>i. f_read content (pos + i * rl) rl) [0..<n])))"
proof (induction n arbitrary: pos)
  case 0
  show ?case by simp
next
  case (Suc n)
  from Suc.prems have len: "length (f_read content pos rl) = rl"
    by (intro f_read_full) simp
  with assms obtain flag rest where rec: "f_read content pos rl = flag # rest"
    by (cases "f_read content pos rl") auto
  from len have tell: "f_tell_after content pos rl = pos + rl"
    by (simp add: f_tell_after_def)
  from Suc.prems have "(pos + rl) + n * rl \<le> length content" by simp
  from Suc.IH [OF this]
  have IH: "read_records pf fields content rl (pos + rl) n =
      Inr (map (decode_record pf fields)
            (filter live (map (\<lambda>i. f_read content (pos + Suc i * rl) rl) [0..<n])))"
    by (simp add: add.assoc)
  have split: "map (\<lambda>i. f_read content (pos + i * rl) rl) [0..<Suc n] =
      (flag # rest) # map (\<lambda>i. f_read content (pos + Suc i * rl) rl) [0..<n]"
    by (simp only: map_upt_Suc) (simp add: rec)
  show ?case
    by (simp only: split read_records.simps rec tell IH) (simp add: live_Cons)
qed

lemma read_fields_step:
  assumes "pos + 33 \<le> hl" "hl \<le> length content"
    "good_descriptor (f_read content pos 32)"
  shows "\<exists>fld. parse_descriptor (f_read content pos 32) = Inr fld \<and>
     read_fields content hl pos =
       (case read_fields content hl (pos + 32) of
          Inl e \<Rightarrow> Inl e | Inr fields \<Rightarrow> Inr (fld # fields))"
proof -
  let ?d = "f_read content pos 32"
  from assms have len: "length ?d = 32" by (intro f_read_full) simp
  from assms(3) obtain name where
    ne: "?d \<noteq> []" and hd: "hd ?d \<noteq> 0x0D" and
    nm: "decode_strict (strip_nul (py_slice ?d 0 11)) = Some name"
    by (auto simp: good_descriptor_def split: list.splits if_splits option.splits)
  from len nm have pd: "parse_descriptor ?d = Inr (name, chr_py (?d ! 11), unat (?d ! 16))"
    by (simp add: parse_descriptor_def)
  from len have tell: "f_tell_after content pos 32 = pos + 32"
    by (simp add: f_tell_after_def)
  from assms(1) have guard: "int pos < int hl - 1" by linarith
  show ?thesis
    by (subst read_fields.simps) (simp only: guard ne hd pd tell if_True if_False sum.case, simp)
qed

lemma read_fields_end: "read_fields content hl (hl - 1) = Inr []"
proof -
  have "\<not> int (hl - 1) < int hl - 1" by linarith
  then show ?thesis by (subst read_fields.simps) (simp only: if_False)
qed

lemma read_fields_table:
  assumes hl: "hl = 33 + 32 * k" and le: "hl \<le> length content"
    and good: "\<And>i. i < k \<Longrightarrow> good_descriptor (f_read content (32 + 32 * i) 32)"
  shows "j \<le> k \<Longrightarrow> \<exists>fields. read_fields content hl (32 + 32 * (k - j)) = Inr fields \<and>
     length fields = j"
proof (induction j)
  case 0
  from hl have "32 + 32 * (k - 0) = hl - 1" by simp
  then show ?case using read_fields_end [of content hl] by simp
next
  case (Suc j)
  then obtain fields where f: "read_fields content hl (32 + 32 * (k - j)) = Inr fields"
    and l: "length fields = j" by auto
  from Suc.prems have eq: "32 + 32 * (k - Suc j) + 32 = 32 + 32 * (k - j)" by simp
  from Suc.prems hl have a: "32 + 32 * (k - Suc j) + 33 \<le> hl" by simp
  from Suc.prems have "k - Suc j < k" by simp
  from read_fields_step [OF a le good [OF this]] obtain fld where
    "read_fields content hl (32 + 32 * (k - Suc j)) =
       (case read_fields content hl (32 + 32 * (k - Suc j) + 32) of
          Inl e \<Rightarrow> Inl e | Inr fields \<Rightarrow> Inr (fld # fields))" by blast
  with f l show ?case by (simp only: eq) simp
qed

lemma well_formed_fields:
  assumes "well_formed content"
  shows "read_fields content (header_len content) 32 = Inr (table_fields content) \<and>
    length (table_fields content) = num_fields content"
proof -
  from assms have hl: "header_len content = 33 + 32 * num_fields content"
    and le: "header_len content \<le> length content"
    and good: "\<And>i. i < num_fields content \<Longrightarrow> good_descriptor (f_read content (32 + 32 * i) 32)"
    by (auto simp: well_formed_def list_all_iff descriptor_at_def)
  from read_fields_table [OF hl le good, of "num_fields content"]
  show ?thesis by (auto simp: table_fields_def)
qed

lemma well_formed_read_dbf:
  assumes "well_formed content"
  shows "read_dbf pf content =
    Inr (map (decode_record pf (table_fields content)) (filter live (disk_records content)))"
proof -
  from assms have "12 \<le> length content" by (auto simp: well_formed_def)
  then have h: "read_header content =
      Inr (num_records content, header_len content, record_len content)"
    by (rule read_header_ok)
  from assms have rl: "0 < record_len content"
    and le: "header_len content + num_records content * record_len content \<le> length content"
    by (auto simp: well_formed_def)
  show ?thesis
    by (simp add: read_dbf_def h well_formed_fields [OF assms]
        read_records_present [OF rl le] disk_records_def)
qed

lemma disk_records_nonempty:
  assumes "well_formed content" and "r \<in> set (disk_records content)"
  shows "r \<noteq> []"
proof -
  from assms(2) obtain i where i: "i < num_records content"
    and r: "r = f_read content (header_len content + i * record_len content) (record_len content)"
    by (auto simp: disk_records_def)
  from i have "Suc i * record_len content \<le> num_records content * record_len content"
    by (intro mult_le_mono1) simp
  with assms(1) have "header_len content + i * record_len content + record_len content
      \<le> length content"
    by (simp add: well_formed_def)
  then have "length r = record_len content" unfolding r by (rule f_read_full)
  with assms(1) show ?thesis by (auto simp: well_formed_def)
qed

lemma live_or_deleted:
  assumes "well_formed content"
  shows "length (filter live (disk_records content)) +
         length (filter deleted (disk_records content)) = num_records content"
proof -
  have "filter deleted (disk_records content) = filter (\<lambda>r. \<not> live r) (disk_records content)"
    using disk_records_nonempty [OF assms]
    by (intro filter_cong) (auto simp: live_def deleted_def)
  then show ?thesis
    using sum_length_filter_compl [of live "disk_records content"]
    by (simp add: disk_records_def)
qed

lemma places_well_formed: "well_formed places"
  by code_simp

lemma places_read: "read_dbf dec_float places = Inr places_records"
  by code_simp

lemma places_fields:
  "table_fields places = [(text_of ''NAME'', [0x43], 6), (text_of ''DATE'', [0x44], 8)]"
  by code_simp

subsection \<open>Decoding a record\<close>

lemma map_of_store_field:
  "map_of (store_field pf name ty v rd) k =
     (if k = name \<and> (ty = [0x43] \<or> ty = [0x4E])
      then map_of (store_field pf name ty v []) name
      else map_of rd k)"
  by (auto simp: store_field_def update_conv' split: option.splits)

lemma decode_fields_other:
  "name \<notin> fst ` set fs \<Longrightarrow>
   map_of (decode_fields pf fs record off rd) name = map_of rd name"
proof (induction fs arbitrary: off rd)
  case Nil
  show ?case by simp
next
  case (Cons f fs)
  obtain n t l where f: "f = (n, t, l)" by (cases f)
  with Cons.prems have "n \<noteq> name" "name \<notin> fst ` set fs" by auto
  then show ?case by (simp add: f Cons.IH map_of_store_field)
qed

lemma decode_fields_lookup:
  "distinct (map fst fs) \<Longrightarrow> i < length fs \<Longrightarrow> fs ! i = (name, ty, len) \<Longrightarrow>
   map_of (decode_fields pf fs record off rd) name =
     map_of (store_field pf name ty
       (bytes_strip (py_slice record (off + sum_list (lens (take i fs)))
          (off + sum_list (lens (take i fs)) + len))) rd) name"
proof (induction fs arbitrary: i off rd)
  case Nil
  then show ?case by simp
next
  case (Cons f fs)
  obtain n t l where f: "f = (n, t, l)" by (cases f)
  show ?case
  proof (cases i)
    case 0
    with Cons.prems f have "n = name" "t = ty" "l = len" "name \<notin> fst ` set fs"
      by auto
    then show ?thesis by (simp add: f 0 decode_fields_other lens_def)
  next
    case (Suc j)
    with Cons.prems f have j: "j < length fs" "fs ! j = (name, ty, len)" "distinct (map fst fs)"
      by auto
    then have "name \<in> fst ` set fs" by (metis fst_conv image_eqI nth_mem)
    with Cons.prems f have ne: "n \<noteq> name" by auto
    show ?thesis
      using ne
      by (simp add: f Suc Cons.IH [OF j(3) j(1) j(2)] lens_def add.assoc)
         (simp add: map_of_store_field [of pf name ty _ "store_field pf n t _ rd"]
            map_of_store_field [of pf name ty _ rd] map_of_store_field [of pf n t _ rd name])
  qed
qed

lemma decode_record_lookup:
  assumes "distinct (map fst fields)" "i < length fields" "fields ! i = (name, ty, len)"
  shows "map_of (decode_record pf fields record) name =
     map_of (store_field pf name ty (bytes_strip (field_bytes fields record i)) []) name"
  using decode_fields_lookup [OF assms, of pf "record" 1 "[]"] assms(3)
  by (simp add: decode_record_def field_bytes_def field_start_def lens_def)

lemma decode_fields_fold:
  "decode_fields pf fs record off rd =
     foldl (\<lambda>rd i. case fs ! i of (name, field_type, field_len) \<Rightarrow>
              store_field pf name field_type
                (bytes_strip (py_slice record (off + sum_list (lens (take i fs)))
                   (off + sum_list (lens (take i fs)) + field_len))) rd)
       rd [0..<length fs]"
proof (induction fs arbitrary: off rd)
  case Nil
  show ?case by simp
next
  case (Cons f fs)
  obtain n t l where f: "f = (n, t, l)" by (cases f)
  have up: "[0..<length (f # fs)] = 0 # map Suc [0..<length fs]"
  proof -
    have "[0..<Suc (length fs)] = 0 # [Suc 0..<Suc (length fs)]"
      by (rule upt_conv_Cons) simp
    then show ?thesis by (simp only: length_Cons map_Suc_upt)
  qed
  show ?case
    by (simp only: up) (simp add: f Cons.IH foldl_map lens_def add.assoc)
qed


lemma set_dropWhile_keep: "x \<in> set xs \<Longrightarrow> \<not> P x \<Longrightarrow> x \<in> set (dropWhile P xs)"
  by (induction xs) auto

lemma set_strip_with: "\<not> P x \<Longrightarrow> x \<in> set (strip_with P xs) \<longleftrightarrow> x \<in> set xs"
proof
  assume "x \<in> set (strip_with P xs)"
  then show "x \<in> set xs"
    by (auto simp: strip_with_def dest!: set_dropWhileD)
next
  assume "\<not> P x" "x \<in> set xs"
  then show "x \<in> set (strip_with P xs)"
    by (simp add: strip_with_def set_dropWhile_keep)
qed

lemma point_in_strip: "0x2E \<in> set (bytes_strip v) \<longleftrightarrow> 0x2E \<in> set v"
  by (simp add: bytes_strip_def set_strip_with is_space_byte_def)

lemma read_dbf_record:
  assumes "well_formed content" "read_dbf pf content = Inr records" "k < length records"
  shows "k < length (filter live (disk_records content)) \<and>
    records ! k = decode_record pf (table_fields content) (filter live (disk_records content) ! k)"
  using assms well_formed_read_dbf [OF assms(1), of pf] by auto

lemma read_dbf_field_lookup:
  assumes "well_formed content" "distinct (map fst (table_fields content))"
    "i < length (table_fields content)" "table_fields content ! i = (name, ty, len)"
    "read_dbf pf content = Inr records" "k < length records"
  shows "map_of (records ! k) name =
    map_of (store_field pf name ty
      (bytes_strip (field_bytes (table_fields content)
         (filter live (disk_records content) ! k) i)) []) name"
  using read_dbf_record [OF assms(1,5,6)] decode_record_lookup [OF assms(2,3,4)] by simp

subsection \<open>C1: the live records, in file order\<close>

text \<open>
  Claim C1. For every well-formed table whose record block holds \<open>N\<close> records that are not
  marked deleted and \<open>M\<close> records that start with \<open>0x2A\<close>, \<open>read_dbf\<close> returns a
  sequence of exactly \<open>N\<close> records, in file order: the result is the list of the live
  records of the record block, each decoded, in the order of their positions in the file;
  its length is \<open>N\<close>, and \<open>N + M\<close> is the declared number of records.
\<close>

theorem read_dbf_live_records_in_order:
  assumes "well_formed content"
  shows "\<exists>records. read_dbf py_float content = Inr records \<and>
    records = map (decode_record py_float (table_fields content))
                (filter live (disk_records content)) \<and>
    length records = length (filter live (disk_records content)) \<and>
    length records + length (filter deleted (disk_records content)) = num_records content"
  using well_formed_read_dbf [OF assms, of py_float] live_or_deleted [OF assms] by simp

theorem read_dbf_live_records_in_order_witness:
  "well_formed places \<and>
   length (filter live (disk_records places)) = 2 \<and>
   length (filter deleted (disk_records places)) = 1 \<and>
   read_dbf dec_float places = Inr places_records \<and> length places_records = 2"
proof -
  have n: "length (filter live (disk_records places)) = 2 \<and>
    length (filter deleted (disk_records places)) = 1" by code_simp
  have l: "length places_records = 2" by (simp add: places_records_def)
  from read_dbf_live_records_in_order [OF places_well_formed, of dec_float]
    places_well_formed n places_read l
  show ?thesis by simp
qed

subsection \<open>C10: the offset of a field\<close>

text \<open>
  Claim C10. While a live record is decoded, the offset advances by the declared length of
  every field, in declaration order and whatever the type code: decoding a record is the
  same as storing, for \<open>i = 0, 1, ...\<close>, the stripped slice of field \<open>i\<close> that starts at
  \<open>field_start fields i\<close>, which is 1 plus the sum of the declared lengths of the fields
  before \<open>i\<close> and does not depend on any type code. A field of an unrecognised type stores
  nothing, and the slices of the fields after it are where they are for any other type.
\<close>

theorem decode_record_offsets:
  "decode_record py_float fields record =
     foldl (\<lambda>record_data i.
              case fields ! i of
                (name, field_type, field_len) \<Rightarrow>
                  store_field py_float name field_type
                    (bytes_strip (py_slice record (field_start fields i)
                       (field_start fields i + field_len))) record_data)
       [] [0..<length fields] \<and>
   field_start fields i = 1 + sum_list (lens (take i fields))"
  by (simp add: decode_record_def decode_fields_fold field_start_def)

subsection \<open>C5: numeric fields\<close>

text \<open>
  Claim C5. For a field of type \<open>'N'\<close> in a live record (of a well-formed table with
  distinct field names): if the bytes of the field contain a point, the value is what
  \<open>float\<close> returns on them, else what \<open>int\<close> returns; where the built-in raises, the value
  is the integer \<open>0\<close> and nothing is raised. The record returned at an index is the decoding
  of the live record at that index alone, and the value of any other field is determined by
  the bytes of that field alone: it is the same in every record that has these bytes there,
  whatever the numeric field holds.
\<close>

theorem numeric_field_value:
  assumes "well_formed content" and "distinct (map fst (table_fields content))"
    and "i < length (table_fields content)"
    and "table_fields content ! i = (name, [0x4E], len)"
    and "read_dbf py_float content = Inr records" and "k < length records"
  shows "records ! k =
      decode_record py_float (table_fields content) (filter live (disk_records content) ! k) \<and>
    map_of (records ! k) name =
      Some (let raw = field_bytes (table_fields content)
                        (filter live (disk_records content) ! k) i
            in if 0x2E \<in> set raw
               then (case py_float (bytes_strip raw) of Some x \<Rightarrow> VFloat x | None \<Rightarrow> VInt 0)
               else (case int_of_bytes (bytes_strip raw) of Some n \<Rightarrow> VInt n | None \<Rightarrow> VInt 0)) \<and>
    (\<forall>record' j name' field_type' len'.
        j < length (table_fields content) \<and> j \<noteq> i \<and>
        table_fields content ! j = (name', field_type', len') \<and>
        field_bytes (table_fields content) record' j =
          field_bytes (table_fields content) (filter live (disk_records content) ! k) j \<longrightarrow>
        map_of (decode_record py_float (table_fields content) record') name' =
          map_of (records ! k) name')"
proof (intro conjI allI impI)
  show rk: "records ! k =
      decode_record py_float (table_fields content) (filter live (disk_records content) ! k)"
    using read_dbf_record [OF assms(1,5,6)] by simp
  show "map_of (records ! k) name =
      Some (let raw = field_bytes (table_fields content)
                        (filter live (disk_records content) ! k) i
            in if 0x2E \<in> set raw
               then (case py_float (bytes_strip raw) of Some x \<Rightarrow> VFloat x | None \<Rightarrow> VInt 0)
               else (case int_of_bytes (bytes_strip raw) of Some n \<Rightarrow> VInt n | None \<Rightarrow> VInt 0))"
    using read_dbf_field_lookup [OF assms]
    by (simp add: store_field_def point_in_strip Let_def split: option.splits)
  fix record' j name' field_type' len'
  assume a: "j < length (table_fields content) \<and> j \<noteq> i \<and>
        table_fields content ! j = (name', field_type', len') \<and>
        field_bytes (table_fields content) record' j =
          field_bytes (table_fields content) (filter live (disk_records content) ! k) j"
  then have j: "j < length (table_fields content)"
    and f: "table_fields content ! j = (name', field_type', len')" by simp_all
  from a show "map_of (decode_record py_float (table_fields content) record') name' =
          map_of (records ! k) name'"
    by (simp add: rk decode_record_lookup [OF assms(2) j f])
qed

lemma census_well_formed: "well_formed census"
  by code_simp

lemma census_fields:
  "table_fields census =
     [(text_of ''POP'', [0x4E], 5), (text_of ''AREA'', [0x4E], 5), (text_of ''X'', [0x4E], 3)]"
  by code_simp

lemma census_read: "read_dbf dec_float census = Inr census_records"
  by code_simp

theorem numeric_field_value_witness:
  "well_formed census \<and>
   distinct (map fst (table_fields census)) \<and>
   table_fields census ! 2 = (text_of ''X'', [0x4E], 3) \<and>
   read_dbf dec_float census = Inr census_records \<and>
   field_bytes (table_fields census) (filter live (disk_records census) ! 0) 2 = ascii '' 1a'' \<and>
   int_of_bytes (bytes_strip (ascii '' 1a'')) = None \<and>
   map_of (census_records ! 0) (text_of ''X'') = Some (VInt 0)"
proof -
  have d: "distinct (map fst (table_fields census))" by code_simp
  have i: "2 < length (table_fields census)" by (simp add: census_fields)
  have f: "table_fields census ! 2 = (text_of ''X'', [0x4E], 3)" by (simp add: census_fields)
  have b: "field_bytes (table_fields census) (filter live (disk_records census) ! 0) 2 =
      ascii '' 1a''" by code_simp
  have p: "int_of_bytes (bytes_strip (ascii '' 1a'')) = None" by code_simp
  have k: "0 < length census_records" by (simp add: census_records_def)
  have n: "0x2E \<notin> set (ascii '' 1a'')" by code_simp
  note v = numeric_field_value [OF census_well_formed d i f census_read k,
      THEN conjunct2, THEN conjunct1]
  from v b p n have "map_of (census_records ! 0) (text_of ''X'') = Some (VInt 0)"
    by (simp only: Let_def if_False option.case)
  with census_well_formed d f census_read b p show ?thesis by simp
qed

subsection \<open>C8: character fields\<close>

text \<open>
  Claim C8, as the code has it. For a field of type \<open>'C'\<close> in a live record (of a
  well-formed table with distinct field names) the value is the text obtained from the bytes
  of the field by removing ASCII whitespace from both ends, decoding UTF-8 with the bytes
  that do not decode left out, and removing whitespace from both ends of the text.
\<close>

theorem character_field_value:
  assumes "well_formed content" and "distinct (map fst (table_fields content))"
    and "i < length (table_fields content)"
    and "table_fields content ! i = (name, [0x43], len)"
    and "read_dbf py_float content = Inr records" and "k < length records"
  shows "map_of (records ! k) name =
    Some (VStr (str_strip (decode_ignore (bytes_strip
      (field_bytes (table_fields content) (filter live (disk_records content) ! k) i)))))"
  using read_dbf_field_lookup [OF assms] by (simp add: store_field_def)


theorem character_field_value_witness:
  "well_formed places \<and>
   distinct (map fst (table_fields places)) \<and>
   table_fields places ! 0 = (text_of ''NAME'', [0x43], 6) \<and>
   read_dbf dec_float places = Inr places_records \<and>
   field_bytes (table_fields places) (filter live (disk_records places) ! 0) 0 =
     ascii ''  AB  '' \<and>
   str_strip (decode_ignore (bytes_strip (ascii ''  AB  ''))) = text_of ''AB'' \<and>
   map_of (places_records ! 0) (text_of ''NAME'') = Some (VStr (text_of ''AB''))"
proof -
  have d: "distinct (map fst (table_fields places))" by code_simp
  have i: "0 < length (table_fields places)" by (simp add: places_fields)
  have f: "table_fields places ! 0 = (text_of ''NAME'', [0x43], 6)"
    by (simp add: places_fields)
  have b: "field_bytes (table_fields places) (filter live (disk_records places) ! 0) 0 =
      ascii ''  AB  ''" by code_simp
  have s: "str_strip (decode_ignore (bytes_strip (ascii ''  AB  ''))) = text_of ''AB''"
    by code_simp
  have k: "0 < length places_records" by (simp add: places_records_def)
  from character_field_value [OF places_well_formed d i f places_read k] b s
  have "map_of (places_records ! 0) (text_of ''NAME'') = Some (VStr (text_of ''AB''))"
    by simp
  with places_well_formed d f places_read b s show ?thesis by simp
qed

text \<open>
  The claim as the specification states it, that only trailing padding is removed and no
  leading character, fails: the first record of \<open>places\<close> stores the bytes
  \<open>"  AB  "\<close> in \<open>NAME\<close>, and the value is \<open>"AB"\<close>, not \<open>"  AB"\<close>.
\<close>

theorem leading_whitespace_counterexample:
  "table_fields places ! 0 = (text_of ''NAME'', [0x43], 6) \<and>
   field_bytes (table_fields places) (filter live (disk_records places) ! 0) 0 =
     ascii ''  AB  '' \<and>
   read_dbf dec_float places = Inr places_records \<and>
   map_of (places_records ! 0) (text_of ''NAME'') = Some (VStr (text_of ''AB'')) \<and>
   text_of ''AB'' \<noteq> text_of ''  AB''"
proof -
  have f: "table_fields places ! 0 = (text_of ''NAME'', [0x43], 6)"
    by (simp add: places_fields)
  have b: "field_bytes (table_fields places) (filter live (disk_records places) ! 0) 0 =
      ascii ''  AB  ''" by code_simp
  have v: "map_of (places_records ! 0) (text_of ''NAME'') = Some (VStr (text_of ''AB''))"
    by code_simp
  have n: "text_of ''AB'' \<noteq> text_of ''  AB''" by code_simp
  from f b places_read v n show ?thesis by simp
qed

subsection \<open>C3: fields of other types\<close>

text \<open>
  Claim C3, as the code has it. For a well-formed table (with distinct field names) that has
  a field whose type code is neither \<open>'C'\<close> nor \<open>'N'\<close>, \<open>read_dbf\<close> does not raise: it
  returns one record for each live record of the file, and no returned record has an entry
  for the name of that field.
\<close>

theorem other_field_not_stored:
  assumes "well_formed content" and "distinct (map fst (table_fields content))"
    and "i < length (table_fields content)"
    and "table_fields content ! i = (name, field_type, len)"
    and "field_type \<noteq> [0x43]" and "field_type \<noteq> [0x4E]"
  shows "\<exists>records. read_dbf py_float content = Inr records \<and>
    length records = length (filter live (disk_records content)) \<and>
    list_all (\<lambda>record_data. map_of record_data name = None) records"
proof -
  let ?records = "map (decode_record py_float (table_fields content))
      (filter live (disk_records content))"
  have r: "read_dbf py_float content = Inr ?records"
    by (rule well_formed_read_dbf [OF assms(1)])
  have "map_of (decode_record py_float (table_fields content) r) name = None" for r
    using decode_record_lookup [OF assms(2,3,4), of py_float r] assms(5,6)
    by (simp add: store_field_def)
  then have "list_all (\<lambda>record_data. map_of record_data name = None) ?records"
    by (simp add: list_all_iff)
  with r show ?thesis by simp
qed


theorem other_field_not_stored_witness:
  "well_formed places \<and>
   distinct (map fst (table_fields places)) \<and>
   table_fields places ! 1 = (text_of ''DATE'', [0x44], 8) \<and>
   read_dbf dec_float places = Inr places_records \<and>
   list_all (\<lambda>record_data. map_of record_data (text_of ''DATE'') = None) places_records"
proof -
  have d: "distinct (map fst (table_fields places))" by code_simp
  have i: "1 < length (table_fields places)" by (simp add: places_fields)
  have f: "table_fields places ! 1 = (text_of ''DATE'', [0x44], 8)"
    by (simp add: places_fields)
  have c: "[0x44] \<noteq> [0x43::int]" and n: "[0x44] \<noteq> [0x4E::int]" by simp_all
  from other_field_not_stored [OF places_well_formed d i f c n, of dec_float] places_read
  have "list_all (\<lambda>record_data. map_of record_data (text_of ''DATE'') = None) places_records"
    by auto
  with places_well_formed d f places_read show ?thesis by simp
qed

text \<open>
  The claim as the specification states it, that the record maps the name of such a field to
  its bytes decoded as a string, fails: \<open>places\<close> has the field \<open>DATE\<close> of type
  \<open>'D'\<close>, its first record stores \<open>"20240101"\<close> there, and the record returned has
  no entry for \<open>DATE\<close>.
\<close>

theorem other_field_counterexample:
  "table_fields places ! 1 = (text_of ''DATE'', [0x44], 8) \<and>
   field_bytes (table_fields places) (filter live (disk_records places) ! 0) 1 =
     ascii ''20240101'' \<and>
   read_dbf dec_float places = Inr places_records \<and>
   map_of (places_records ! 0) (text_of ''DATE'') = None"
proof -
  have f: "table_fields places ! 1 = (text_of ''DATE'', [0x44], 8)"
    by (simp add: places_fields)
  have b: "field_bytes (table_fields places) (filter live (disk_records places) ! 0) 1 =
      ascii ''20240101''" by code_simp
  have v: "map_of (places_records ! 0) (text_of ''DATE'') = None" by code_simp
  from f b places_read v show ?thesis by simp
qed

subsection \<open>C4: deleted records\<close>

lemma deleted_not_live: "deleted r \<Longrightarrow> \<not> live r"
  by (simp add: deleted_def live_def)

text \<open>
  Claim C4. A record of a well-formed table whose first byte is \<open>0x2A\<close> never appears in
  the output, whatever its fields hold: the output is the decoding of the live records among
  the other records of the file, so it is the same for every content of the deleted record.
  In the scenario of the specification (one field \<open>NAME\<close> of type Character and length
  10, the live record \<open>"ABCDEFGHIJ"\<close> and the deleted record \<open>"ZZZZZZZZZZ"\<close>) the
  output is the one record that maps \<open>NAME\<close> to \<open>"ABCDEFGHIJ"\<close>.
\<close>

theorem deleted_record_excluded:
  assumes "well_formed content" and "i < num_records content"
    and "deleted (disk_records content ! i)"
  shows "read_dbf py_float content =
    Inr (map (decode_record py_float (table_fields content))
          (filter live (take i (disk_records content) @ drop (Suc i) (disk_records content))))"
proof -
  from assms(2) have "i < length (disk_records content)" by (simp add: disk_records_def)
  then have "disk_records content =
      take i (disk_records content) @ disk_records content ! i # drop (Suc i) (disk_records content)"
    by (rule id_take_nth_drop)
  then have "filter live (disk_records content) =
      filter live (take i (disk_records content) @ disk_records content ! i #
        drop (Suc i) (disk_records content))" by simp
  also have "\<dots> = filter live (take i (disk_records content) @ drop (Suc i) (disk_records content))"
    using deleted_not_live [OF assms(3)] by simp
  finally show ?thesis by (simp add: well_formed_read_dbf [OF assms(1)])
qed

lemma scenario_well_formed: "well_formed scenario"
  by code_simp

theorem deleted_record_excluded_witness:
  "well_formed scenario \<and> 1 < num_records scenario \<and>
   disk_records scenario ! 1 = ascii ''*ZZZZZZZZZZ'' \<and>
   deleted (disk_records scenario ! 1) \<and>
   read_dbf dec_float scenario = Inr [[(text_of ''NAME'', VStr (text_of ''ABCDEFGHIJ''))]]"
proof -
  have n: "1 < num_records scenario" by code_simp
  have r: "disk_records scenario ! 1 = ascii ''*ZZZZZZZZZZ''" by code_simp
  have d: "deleted (disk_records scenario ! 1)" by code_simp
  have v: "map (decode_record dec_float (table_fields scenario))
      (filter live (take 1 (disk_records scenario) @ drop (Suc 1) (disk_records scenario))) =
      [[(text_of ''NAME'', VStr (text_of ''ABCDEFGHIJ''))]]" by code_simp
  from deleted_record_excluded [OF scenario_well_formed n d, of dec_float] v
  have "read_dbf dec_float scenario = Inr [[(text_of ''NAME'', VStr (text_of ''ABCDEFGHIJ''))]]"
    by simp
  with scenario_well_formed n r d show ?thesis by simp
qed

subsection \<open>C2: files that end before the declared records do\<close>

lemma parse_descriptor_error:
  "parse_descriptor d = Inl e \<Longrightarrow> e = IndexError \<or> e = UnicodeDecodeError"
  by (auto simp: parse_descriptor_def split: option.splits if_splits)

lemma read_fields_error:
  "read_fields content hl pos = Inl e \<Longrightarrow> e = IndexError \<or> e = UnicodeDecodeError"
proof (induction content hl pos rule: read_fields.induct)
  case (1 content hl pos)
  from "1.prems" show ?case
    by (subst (asm) read_fields.simps)
       (auto split: if_splits sum.splits dest: parse_descriptor_error "1.IH")
qed

lemma read_records_missing:
  "0 < n \<Longrightarrow> length content \<le> pos + (n - 1) * rl \<Longrightarrow>
   read_records pf fields content rl pos n = Inl IndexError"
proof (induction n arbitrary: pos)
  case 0
  then show ?case by simp
next
  case (Suc n)
  show ?case
  proof (cases "f_read content pos rl")
    case Nil
    then show ?thesis by simp
  next
    case (Cons flag rest)
    then have ne: "take rl (drop pos content) \<noteq> []" by (simp add: f_read_def)
    then have pos: "pos < length content" and rl: "0 < rl" by auto
    from pos Suc.prems(2) have n: "0 < n" by (cases n) auto
    have len: "length (f_read content pos rl) = min rl (length content - pos)"
      by (simp add: f_read_def min.commute)
    have "length content \<le> pos + length (f_read content pos rl) + (n - 1) * rl"
    proof (cases "rl \<le> length content - pos")
      case True
      from n have "rl + (n - 1) * rl = n * rl"
        by (cases n) simp_all
      with True Suc.prems(2) show ?thesis by (simp add: len)
    next
      case False
      with pos show ?thesis by (simp add: len)
    qed
    then have "length content \<le> f_tell_after content pos rl + (n - 1) * rl"
      by (simp add: f_tell_after_def)
    from Suc.IH [OF n this] Cons show ?thesis by simp
  qed
qed

text \<open>
  Claim C2, as the code has it. When the header can be read (the file has at least 12 bytes)
  and declares at least one record, and the file ends at or before the first byte of the
  last declared record, \<open>read_dbf\<close> raises and returns no sequence: reading the deletion
  flag of a record of which no byte is left raises \<open>IndexError\<close> (unless the field table
  has raised \<open>IndexError\<close> or \<open>UnicodeDecodeError\<close> before). The code has no error of its
  own for a truncated file.
\<close>

theorem missing_record_fails:
  assumes "12 \<le> length content" and "0 < num_records content"
    and "length content \<le> header_len content + (num_records content - 1) * record_len content"
  shows "read_dbf py_float content = Inl IndexError \<or>
         read_dbf py_float content = Inl UnicodeDecodeError"
proof (cases "read_fields content (header_len content) 32")
  case (Inl e)
  with read_fields_error [OF Inl] show ?thesis
    by (auto simp: read_dbf_def read_header_ok [OF assms(1)])
next
  case (Inr fields)
  then show ?thesis
    by (simp add: read_dbf_def read_header_ok [OF assms(1)]
        read_records_missing [OF assms(2,3)])
qed

theorem missing_record_fails_witness:
  "12 \<le> length cut_off \<and> 0 < num_records cut_off \<and>
   length cut_off \<le> header_len cut_off + (num_records cut_off - 1) * record_len cut_off \<and>
   read_dbf dec_float cut_off = Inl IndexError"
proof -
  have a: "12 \<le> length cut_off" by code_simp
  have b: "0 < num_records cut_off" by code_simp
  have c: "length cut_off \<le> header_len cut_off + (num_records cut_off - 1) * record_len cut_off"
    by code_simp
  have d: "read_dbf dec_float cut_off \<noteq> Inl UnicodeDecodeError" by code_simp
  from missing_record_fails [OF a b c, of dec_float] d
  have "read_dbf dec_float cut_off = Inl IndexError" by simp
  with a b c show ?thesis by simp
qed

text \<open>
  The claim as the specification states it, that the reader fails whenever the declared
  record block extends past the end of the file, fails: \<open>cut_short\<close> declares two records
  of 7 bytes from offset 65 and has 75 bytes, and \<open>read_dbf\<close> returns two records, the
  second decoded from the three bytes that are there.
\<close>

theorem partial_record_counterexample:
  "num_records cut_short = 2 \<and> header_len cut_short = 65 \<and> record_len cut_short = 7 \<and>
   length cut_short = 75 \<and>
   length cut_short < header_len cut_short + num_records cut_short * record_len cut_short \<and>
   read_dbf dec_float cut_short = Inr places_records"
  by code_simp

subsection \<open>C7: files shorter than the header\<close>

text \<open>
  Claim C7, as the code has it. On a file of fewer than 12 bytes \<open>read_dbf\<close> raises
  (\<open>struct.error\<close>, from unpacking a slice of the header that is too short) and returns no
  sequence. The code has no check of its own for the 32 bytes of the header.
\<close>

theorem short_header_fails:
  assumes "length content < 12"
  shows "read_dbf py_float content = Inl StructError"
  by (simp add: read_dbf_def read_header_short [OF assms])

theorem short_header_fails_witness:
  "length (replicate 11 (0::byte)) < 12 \<and>
   read_dbf dec_float (replicate 11 0) = Inl StructError"
  using short_header_fails [of "replicate 11 0" dec_float] by simp

text \<open>
  The claim as the specification states it, that the reader fails on every file of fewer
  than 32 bytes, fails: on twelve zero bytes the three numbers of the header are read as 0,
  no descriptor and no record is read, and \<open>read_dbf\<close> returns the empty list.
\<close>

theorem short_header_counterexample:
  "length zeros = 12 \<and> length zeros < 32 \<and>
   read_dbf dec_float zeros = Inr []"
  by code_simp

subsection \<open>C6: the two copies of the reader\<close>

lemma gen_read_header_eq: "gen_read_header content = read_header content"
  by (simp add: gen_read_header_def read_header_def)

lemma gen_parse_descriptor_eq: "gen_parse_descriptor d = parse_descriptor d"
  by (simp add: gen_parse_descriptor_def parse_descriptor_def)

lemma gen_read_fields_eq: "gen_read_fields content hl pos = read_fields content hl pos"
proof (induction content hl pos rule: read_fields.induct)
  case (1 content hl pos)
  show ?case
    by (subst gen_read_fields.simps, subst read_fields.simps)
       (auto simp: gen_parse_descriptor_eq "1.IH" split: sum.splits)
qed

lemma gen_store_field_eq: "gen_store_field pf name ty v rd = store_field pf name ty v rd"
  by (simp add: gen_store_field_def store_field_def)

lemma gen_decode_fields_eq:
  "gen_decode_fields pf fs r off rd = decode_fields pf fs r off rd"
  by (induction fs arbitrary: off rd) (auto simp: gen_store_field_eq)

lemma gen_read_records_eq:
  "gen_read_records pf fs content rl pos n = read_records pf fs content rl pos n"
  by (induction n arbitrary: pos)
     (auto simp: gen_decode_fields_eq decode_record_def split: list.splits sum.splits)

text \<open>
  Claim C6. The two copies of \<open>read_dbf\<close> are equivalent: on every content of the file
  (and whatever \<open>float\<close> does) they return the same list of records or raise the same
  exception.
\<close>

theorem readers_equal: "gen_read_dbf py_float content = read_dbf py_float content"
  by (simp add: gen_read_dbf_def read_dbf_def gen_read_header_eq gen_read_fields_eq
      gen_read_records_eq split: sum.splits prod.splits)

end
